theory Spec2Isabelle
  imports Complex_Main "HOL-Library.Word" "HOL-Library.Log_Nat"
begin

section \<open>The touch painter of \<open>code.py\<close>\<close>

text \<open>
  A shallow embedding of the drawing primitives (\<open>draw_brush\<close>, \<open>draw_line\<close>) and of the
  polling loop of \<open>code.py\<close>. Python's integers are \<open>int\<close>; the values of the pixels,
  which the bitmap stores in 16 bits, are \<open>16 word\<close>. Python's floats (the value
  \<open>t = i / steps\<close> in \<open>draw_line\<close>, and the clock \<open>time.monotonic()\<close>) are a type
  parameter \<open>'f\<close>: the model uses only the operations the source applies to them and
  assumes no law of arithmetic about them. Where a property depends on how floats round
  (the centres of the stamps of \<open>draw_line\<close>), it is proved for every float arithmetic that
  rounds each operation, and run on a model of binary64.
\<close>

subsection \<open>Errors, the platform, the bitmap\<close>

text \<open>The exceptions the modelled code could raise and does not catch.\<close>

datatype error = IndexError | ZeroDivisionError

text \<open>
  What the board and the interpreter supply: the size of the display
  (\<open>graphics.display.width\<close>, \<open>graphics.display.height\<close>), the float operations used by
  \<open>draw_line\<close> (\<open>i / steps\<close> on two integers, the promotion of an integer to a float in
  \<open>x1 + t * (x2 - x1)\<close>, and \<open>int(...)\<close>), and the two float literals of the main loop
  (\<open>touch_delay = 0.005\<close>, \<open>button_debounce_time = 0.5\<close>).
\<close>

record 'f platform =
  display_width :: int
  display_height :: int
  truediv :: "int \<Rightarrow> int \<Rightarrow> 'f"
  float_of :: "int \<Rightarrow> 'f"
  trunc :: "'f \<Rightarrow> int"
  touch_delay :: 'f
  button_debounce_time :: 'f

text \<open>
  \<open>displayio.Bitmap(graphics.display.width, graphics.display.height, 65535)\<close>: the pixel
  store. It keeps 16 bits for each pixel, an RGB565 colour. Its index range is the
  display's, so a subscript outside the display raises \<open>IndexError\<close>.
\<close>

type_synonym color = "16 word"

type_synonym Bitmap = "int \<times> int \<Rightarrow> color"

definition setitem :: "'f platform \<Rightarrow> Bitmap \<Rightarrow> int \<Rightarrow> int \<Rightarrow> color \<Rightarrow> error + Bitmap" where
  "setitem P bm x y v =
     (if 0 \<le> x \<and> x < display_width P \<and> 0 \<le> y \<and> y < display_height P
      then Inr (bm((x, y) := v)) else Inl IndexError)"

definition getitem :: "'f platform \<Rightarrow> Bitmap \<Rightarrow> int \<Rightarrow> int \<Rightarrow> error + color" where
  "getitem P bm x y =
     (if 0 \<le> x \<and> x < display_width P \<and> 0 \<le> y \<and> y < display_height P
      then Inr (bm (x, y)) else Inl IndexError)"

text \<open>Python's \<open>a // b\<close> and \<open>i / steps\<close>: both raise on a zero divisor.\<close>

definition floordiv :: "int \<Rightarrow> int \<Rightarrow> error + int" where
  "floordiv a b = (if b = 0 then Inl ZeroDivisionError else Inr (a div b))"

definition py_truediv :: "'f platform \<Rightarrow> int \<Rightarrow> int \<Rightarrow> error + 'f" where
  "py_truediv P a b = (if b = 0 then Inl ZeroDivisionError else Inr (truediv P a b))"

text \<open>Python's \<open>xs[i]\<close> on a list: a negative index counts from the end.\<close>

definition list_getitem :: "'a list \<Rightarrow> int \<Rightarrow> error + 'a" where
  "list_getitem xs i =
     (let n = int (length xs); k = (if i < 0 then i + n else i)
      in if 0 \<le> k \<and> k < n then Inr (xs ! nat k) else Inl IndexError)"

text \<open>
  A \<open>for\<close> loop over a list whose body updates a state and may raise: the first error ends
  the loop.
\<close>

fun for_each :: "'a list \<Rightarrow> ('a \<Rightarrow> 's \<Rightarrow> error + 's) \<Rightarrow> 's \<Rightarrow> error + 's" where
  "for_each [] body s = Inr s"
| "for_each (a # as) body s =
     (case body a s of Inl e \<Rightarrow> Inl e | Inr s' \<Rightarrow> for_each as body s')"

subsection \<open>The drawing primitives\<close>

text \<open>\<open>draw_brush\<close>, lines 52-61. \<open>range(-half_size, half_size + 1)\<close> is \<open>[- half_size..half_size]\<close>.\<close>

definition draw_brush :: "'f platform \<Rightarrow> Bitmap \<Rightarrow> int \<Rightarrow> int \<Rightarrow> color \<Rightarrow> int \<Rightarrow> error + Bitmap" where
  "draw_brush P bm0 x y color sz =
     (let half_size = sz div 2 in
      for_each [- half_size..half_size] (\<lambda>i.
        for_each [- half_size..half_size] (\<lambda>j bm.
          let x_pixel = x + i; y_pixel = y + j in
          if 0 \<le> x_pixel \<and> x_pixel < display_width P \<and> 0 \<le> y_pixel \<and> y_pixel < display_height P
          then setitem P bm x_pixel y_pixel color
          else Inr bm)) bm0)"

text \<open>
  \<open>draw_line\<close>, lines 33-49. \<open>range(steps + 1)\<close> is \<open>[0..steps]\<close>; the integers \<open>x1\<close> and
  \<open>x2 - x1\<close> are promoted to floats by the mixed arithmetic of \<open>x1 + t * (x2 - x1)\<close>.
\<close>

definition draw_line ::
  "('f::{plus,times}) platform \<Rightarrow> Bitmap \<Rightarrow> int \<Rightarrow> int \<Rightarrow> int \<Rightarrow> int \<Rightarrow> color \<Rightarrow> int \<Rightarrow> error + Bitmap" where
  "draw_line P bm0 x1 y1 x2 y2 color sz =
     (let dx = \<bar>x2 - x1\<bar>; dy = \<bar>y2 - y1\<bar>; steps = max dx dy in
      if steps = 0 then draw_brush P bm0 x1 y1 color sz
      else for_each [0..steps] (\<lambda>i bm.
        case py_truediv P i steps of
          Inl e \<Rightarrow> Inl e
        | Inr t \<Rightarrow>
            let x = trunc P (float_of P x1 + t * float_of P (x2 - x1));
                y = trunc P (float_of P y1 + t * float_of P (y2 - y1))
            in draw_brush P bm x y color sz) bm0)"

subsection \<open>The globals of the program\<close>

definition palette_width :: int where
  "palette_width = 160"

text \<open>\<open>section_height = graphics.display.height // 9\<close>, line 24.\<close>

definition section_height :: "'f platform \<Rightarrow> int" where
  "section_height P = display_height P div 9"

definition brush_sizes :: "int list" where
  "brush_sizes = [1, 3, 6, 9, 12]"

definition color_names :: "string list" where
  "color_names = [''Blue'', ''Cyan'', ''Green'', ''Yellow'', ''Red'', ''Magenta'', ''White'', ''Black'']"

text \<open>
  The lines the loop prints, each with the values its format string shows:
  \<open>"Actually clearing bitmap..."\<close>, \<open>"Cleared!"\<close>, \<open>f"Brush size: {pixel_size}"\<close> and
  \<open>f"Color: {color_names[section]} ({hex(current_color)})"\<close>.
\<close>

datatype printed_line =
  Print_Actually_clearing
| Print_Cleared
| Print_Brush_size int
| Print_Color string color

text \<open>
  The variables the loop reads and writes (lines 26-27 and 202-213), the bitmap, the number
  shown by \<open>brush_label.text = f"SIZE {pixel_size}"\<close>, and the lines printed so far.
\<close>

record 'f state =
  bitmap :: Bitmap
  current_color :: color
  last_touch_time :: 'f
  last_draw_pos :: "(int \<times> int) option"
  is_drawing :: bool
  size_button_pressed :: bool
  size_button_last_change :: 'f
  clear_button_pressed :: bool
  clear_button_last_change :: 'f
  current_brush_index :: int
  pixel_size :: int
  brush_label_size :: int
  stdout :: "printed_line list"

text \<open>
  The state when the loop starts. The bitmap built by \<open>create_bitmap_and_palette\<close> and the
  colour \<open>displayio.ColorConverter().convert(0xFFFFFF)\<close> come from \<open>displayio\<close> and are
  parameters.
\<close>

definition initial_state :: "Bitmap \<Rightarrow> color \<Rightarrow> ('f::zero) state" where
  "initial_state bm white =
     \<lparr>bitmap = bm, current_color = white, last_touch_time = 0, last_draw_pos = None,
      is_drawing = False, size_button_pressed = False, size_button_last_change = 0,
      clear_button_pressed = False, clear_button_last_change = 0,
      current_brush_index = 2, pixel_size = 6, brush_label_size = 6, stdout = []\<rparr>"

subsection \<open>The branches of the loop body\<close>

text \<open>The two nested loops of lines 246-248.\<close>

definition clear_drawing_area :: "'f platform \<Rightarrow> Bitmap \<Rightarrow> error + Bitmap" where
  "clear_drawing_area P bm0 =
     for_each [palette_width..display_width P - 1] (\<lambda>x_clear.
       for_each [0..display_height P - 1] (\<lambda>y_clear bm. setitem P bm x_clear y_clear 0)) bm0"

text \<open>Section 7, lines 239-254.\<close>

definition clear_button_hit :: "('f::{minus,ord}) platform \<Rightarrow> 'f \<Rightarrow> 'f state \<Rightarrow> error + 'f state" where
  "clear_button_hit P current_time s =
     (if \<not> clear_button_pressed s then
        if current_time - clear_button_last_change s > button_debounce_time P then
          case clear_drawing_area P (bitmap s) of
            Inl e \<Rightarrow> Inl e
          | Inr bm \<Rightarrow>
              Inr (s\<lparr>bitmap := bm,
                     stdout := stdout s @ [Print_Actually_clearing, Print_Cleared],
                     clear_button_pressed := True,
                     clear_button_last_change := current_time,
                     last_draw_pos := None,
                     is_drawing := False\<rparr>)
        else Inr s
      else Inr s)"

text \<open>Section 8, lines 256-268.\<close>

definition size_button_hit :: "('f::{minus,ord}) platform \<Rightarrow> 'f \<Rightarrow> 'f state \<Rightarrow> error + 'f state" where
  "size_button_hit P current_time s =
     (if \<not> size_button_pressed s then
        if current_time - size_button_last_change s > button_debounce_time P then
          let index = (current_brush_index s + 1) mod int (length brush_sizes) in
          case list_getitem brush_sizes index of
            Inl e \<Rightarrow> Inl e
          | Inr new_size \<Rightarrow>
              Inr (s\<lparr>current_brush_index := index,
                     pixel_size := new_size,
                     brush_label_size := new_size,
                     stdout := stdout s @ [Print_Brush_size new_size],
                     size_button_pressed := True,
                     size_button_last_change := current_time,
                     last_draw_pos := None,
                     is_drawing := False\<rparr>)
        else Inr s
      else Inr s)"

text \<open>Sections 0 to 6, lines 270-276.\<close>

definition color_hit :: "'f platform \<Rightarrow> 'f state \<Rightarrow> int \<Rightarrow> int \<Rightarrow> int \<Rightarrow> error + 'f state" where
  "color_hit P s x y section =
     (case getitem P (bitmap s) x y of
        Inl e \<Rightarrow> Inl e
      | Inr color \<Rightarrow>
          (case (if section < int (length color_names)
                 then (case list_getitem color_names section of
                         Inl e \<Rightarrow> Inl e
                       | Inr name \<Rightarrow> Inr [Print_Color name color])
                 else Inr []) of
             Inl e \<Rightarrow> Inl e
           | Inr printed \<Rightarrow>
               Inr (s\<lparr>current_color := color,
                      stdout := stdout s @ printed,
                      last_draw_pos := None,
                      is_drawing := False\<rparr>)))"

text \<open>
  The drawing area, lines 279-288. The line is drawn when
  \<open>is_drawing and last_draw_pos is not None\<close>, from \<open>last_draw_pos[0], last_draw_pos[1]\<close>.
\<close>

definition canvas_hit :: "('f::{plus,times}) platform \<Rightarrow> 'f state \<Rightarrow> int \<Rightarrow> int \<Rightarrow> error + 'f state" where
  "canvas_hit P s x y =
     (case (case last_draw_pos s of
              Some (last_x, last_y) \<Rightarrow>
                if is_drawing s
                then draw_line P (bitmap s) last_x last_y x y (current_color s) (pixel_size s)
                else draw_brush P (bitmap s) x y (current_color s) (pixel_size s)
            | None \<Rightarrow> draw_brush P (bitmap s) x y (current_color s) (pixel_size s)) of
        Inl e \<Rightarrow> Inl e
      | Inr bm \<Rightarrow> Inr (s\<lparr>bitmap := bm, last_draw_pos := Some (x, y), is_drawing := True\<rparr>))"

text \<open>\<open>last_touch_time = current_time\<close>, line 290, after the branch taken.\<close>

definition touch_done :: "'f \<Rightarrow> error + 'f state \<Rightarrow> error + 'f state" where
  "touch_done current_time r =
     (case r of Inl e \<Rightarrow> Inl e | Inr s \<Rightarrow> Inr (s\<lparr>last_touch_time := current_time\<rparr>))"

text \<open>
  The body of \<open>for touch in graphics.touch.touches\<close>, lines 229-290, for the touch
  \<open>(touch["x"], touch["y"])\<close>. A touch outside the display is skipped by \<open>continue\<close>, which
  also skips line 290.
\<close>

definition process_touch ::
  "('f::{plus,times,minus,ord}) platform \<Rightarrow> 'f \<Rightarrow> 'f state \<Rightarrow> int \<times> int \<Rightarrow> error + 'f state" where
  "process_touch P current_time s touch =
     (let x = fst touch; y = snd touch in
      if \<not> (0 \<le> x \<and> x < display_width P) \<or> \<not> (0 \<le> y \<and> y < display_height P) then Inr s
      else touch_done current_time
        (if x < palette_width then
           case floordiv y (section_height P) of
             Inl e \<Rightarrow> Inl e
           | Inr section \<Rightarrow>
               if section = 7 then clear_button_hit P current_time s
               else if section = 8 then size_button_hit P current_time s
               else if section < 7 then color_hit P s x y section
               else Inr s
         else if x \<ge> palette_width then canvas_hit P s x y
         else Inr s))"

subsection \<open>The polling loop\<close>

text \<open>
  One pass of \<open>while True\<close> reads the clock, \<open>graphics.touch.touched\<close> and, when it gets that
  far, \<open>graphics.touch.touches\<close>; \<open>None\<close> is the driver raising \<open>RuntimeError\<close>, which
  \<open>except RuntimeError: pass\<close> swallows.
\<close>

record 'f poll =
  now :: 'f
  touched :: bool
  touches :: "(int \<times> int) list option"

definition loop_iteration ::
  "('f::{plus,times,minus,ord}) platform \<Rightarrow> 'f state \<Rightarrow> 'f poll \<Rightarrow> error + 'f state" where
  "loop_iteration P s p =
     (let current_time = now p in
      if touched p then
        if current_time - last_touch_time s > touch_delay P then
          case touches p of
            None \<Rightarrow> Inr s
          | Some ts \<Rightarrow> for_each ts (\<lambda>touch s'. process_touch P current_time s' touch) s
        else Inr s
      else
        Inr (s\<lparr>last_draw_pos := (if is_drawing s then None else last_draw_pos s),
               is_drawing := False,
               size_button_pressed := False,
               clear_button_pressed := False\<rparr>))"

text \<open>The loop never ends; \<open>run\<close> is what it has done after a finite number of passes.\<close>

fun run :: "('f::{plus,times,minus,ord}) platform \<Rightarrow> 'f state \<Rightarrow> 'f poll list \<Rightarrow> error + 'f state" where
  "run P s [] = Inr s"
| "run P s (p # ps) =
     (case loop_iteration P s p of Inl e \<Rightarrow> Inl e | Inr s' \<Rightarrow> run P s' ps)"

text \<open>
  A platform for concrete runs: the 720 by 720 display of the board
  (\<open>Displays.SQUARE40\<close>), with exact rational arithmetic in the place of floats.
\<close>

definition board :: "rat platform" where
  "board =
     \<lparr>display_width = 720, display_height = 720,
      truediv = (\<lambda>a b. of_int a / of_int b),
      float_of = of_int,
      trunc = (\<lambda>r. if 0 \<le> r then \<lfloor>r\<rfloor> else \<lceil>r\<rceil>),
      touch_delay = 5 / 1000,
      button_debounce_time = 1 / 2\<rparr>"

subsection \<open>What the properties observe\<close>

text \<open>
  The columns and the rows of the bitmap in which a call changed a pixel (none when the
  call raised).
\<close>

definition touched_columns :: "Bitmap \<Rightarrow> error + Bitmap \<Rightarrow> int set" where
  "touched_columns bm r =
     (case r of Inl e \<Rightarrow> {} | Inr bm' \<Rightarrow> {px. \<exists>py. bm' (px, py) \<noteq> bm (px, py)})"

definition touched_rows :: "Bitmap \<Rightarrow> error + Bitmap \<Rightarrow> int set" where
  "touched_rows bm r =
     (case r of Inl e \<Rightarrow> {} | Inr bm' \<Rightarrow> {py. \<exists>px. bm' (px, py) \<noteq> bm (px, py)})"

text \<open>The stroke tracker is consistent: a stroke is in progress exactly when a last point is kept.\<close>

definition stroke_consistent :: "'f state \<Rightarrow> bool" where
  "stroke_consistent s \<longleftrightarrow> (is_drawing s \<longleftrightarrow> last_draw_pos s \<noteq> None)"

text \<open>
  The two momentary buttons: the section of the left column each one occupies, its latch,
  the time of its last activation, and how often its action has run (each run of the clear
  action prints \<open>"Cleared!"\<close> once, each run of the size action prints one
  \<open>"Brush size: ..."\<close> line).
\<close>

datatype button = Clear_button | Size_button

fun button_section :: "button \<Rightarrow> int" where
  "button_section Clear_button = 7"
| "button_section Size_button = 8"

fun pressed :: "button \<Rightarrow> 'f state \<Rightarrow> bool" where
  "pressed Clear_button s = clear_button_pressed s"
| "pressed Size_button s = size_button_pressed s"

fun last_change :: "button \<Rightarrow> 'f state \<Rightarrow> 'f" where
  "last_change Clear_button s = clear_button_last_change s"
| "last_change Size_button s = size_button_last_change s"

fun is_brush_size_line :: "printed_line \<Rightarrow> bool" where
  "is_brush_size_line (Print_Brush_size n) = True"
| "is_brush_size_line other = False"

fun actions :: "button \<Rightarrow> 'f state \<Rightarrow> nat" where
  "actions Clear_button s = length (filter (\<lambda>l. l = Print_Cleared) (stdout s))"
| "actions Size_button s = length (filter is_brush_size_line (stdout s))"

fun button_hit :: "button \<Rightarrow> ('f::{minus,ord}) platform \<Rightarrow> 'f \<Rightarrow> 'f state \<Rightarrow> error + 'f state" where
  "button_hit Clear_button = clear_button_hit"
| "button_hit Size_button = size_button_hit"

text \<open>A touch inside the display, in the left column, in the section of the button.\<close>

definition on_button :: "'f platform \<Rightarrow> button \<Rightarrow> int \<times> int \<Rightarrow> bool" where
  "on_button P b touch \<longleftrightarrow>
     0 \<le> fst touch \<and> fst touch < display_width P \<and> 0 \<le> snd touch \<and> snd touch < display_height P
     \<and> fst touch < palette_width
     \<and> floordiv (snd touch) (section_height P) = Inr (button_section b)"

text \<open>
  A pass of the loop during which the finger stays on the button: the screen is touched and
  every touch the driver reports (if it does not fault) is on the button.
\<close>

definition holds_button :: "'f platform \<Rightarrow> button \<Rightarrow> 'f poll \<Rightarrow> bool" where
  "holds_button P b p \<longleftrightarrow>
     touched p \<and> (case touches p of None \<Rightarrow> True | Some ts \<Rightarrow> \<forall>touch\<in>set ts. on_button P b touch)"

text \<open>A pass of the loop that finds the screen touched and reads the given touches.\<close>

definition touching :: "'f \<Rightarrow> (int \<times> int) list \<Rightarrow> 'f poll" where
  "touching t ts = \<lparr>now = t, touched = True, touches = Some ts\<rparr>"

definition released :: "'f \<Rightarrow> 'f poll" where
  "released t = \<lparr>now = t, touched = False, touches = Some []\<rparr>"

subsection \<open>The stamps of a line\<close>

text \<open>
  The centre of the stamp that \<open>draw_line\<close> makes at step \<open>i\<close> (lines 46-48), and the centres
  of all its stamps in the order it makes them: the single point of line 42 when
  \<open>steps\<close> is 0, the centres for \<open>i\<close> in \<open>range(steps + 1)\<close> otherwise.
\<close>

definition stamp_center ::
  "('f::{plus,times}) platform \<Rightarrow> int \<Rightarrow> int \<Rightarrow> int \<Rightarrow> int \<Rightarrow> int \<Rightarrow> int \<times> int" where
  "stamp_center P x1 y1 x2 y2 i =
     (let steps = max \<bar>x2 - x1\<bar> \<bar>y2 - y1\<bar>; t = truediv P i steps
      in (trunc P (float_of P x1 + t * float_of P (x2 - x1)),
          trunc P (float_of P y1 + t * float_of P (y2 - y1))))"

definition line_stamps ::
  "('f::{plus,times}) platform \<Rightarrow> int \<Rightarrow> int \<Rightarrow> int \<Rightarrow> int \<Rightarrow> (int \<times> int) list" where
  "line_stamps P x1 y1 x2 y2 =
     (let steps = max \<bar>x2 - x1\<bar> \<bar>y2 - y1\<bar>
      in if steps = 0 then [(x1, y1)] else map (stamp_center P x1 y1 x2 y2) [0..steps])"


subsection \<open>Floating point\<close>



text \<open>
  CPython's float: IEEE 754 binary64, 53 significant bits, rounded to the nearest
  representable number, ties to the even significand. \<open>expo x\<close> is the exponent of \<open>x\<close>, the
  \<open>e\<close> with \<open>2 powi e \<le> \<bar>x\<bar> < 2 powi (e + 1)\<close>; \<open>round_to p x\<close> rounds \<open>x\<close> to \<open>p\<close> significant bits.
  The exponent range is left unbounded: the model has no overflow, no infinities and no
  subnormal numbers, which the runs below stay away from (all their values have a magnitude
  between \<open>2 powi - 25\<close> and \<open>2 powi 54\<close>, or are 0).
\<close>

definition expo :: "rat \<Rightarrow> int" where
  "expo x = (if 1 \<le> \<bar>x\<bar> then bitlen \<lfloor>\<bar>x\<bar>\<rfloor> - 1 else - bitlen (\<lceil>1 / \<bar>x\<bar>\<rceil> - 1))"

definition round_half_even :: "rat \<Rightarrow> int" where
  "round_half_even r =
     (let f = \<lfloor>r\<rfloor>; d = r - of_int f
      in if d < 1 / 2 then f else if 1 / 2 < d then f + 1 else if even f then f else f + 1)"

definition round_to :: "nat \<Rightarrow> rat \<Rightarrow> rat" where
  "round_to p x =
     (if x = 0 then 0
      else let q = 2 powi (expo x + 1 - int p) in of_int (round_half_even (x / q)) * q)"


text \<open>
  A binary64 float carries its value. The operations round what they return, so every
  float that the program computes from integers is representable.
\<close>

datatype float64 = Float64 rat

fun val64 :: "float64 \<Rightarrow> rat" where
  "val64 (Float64 r) = r"

instantiation float64 :: "{plus,times,minus,ord,zero}"
begin

definition plus_float64 :: "float64 \<Rightarrow> float64 \<Rightarrow> float64" where
  "plus_float64 x y = Float64 (round_to 53 (val64 x + val64 y))"

definition times_float64 :: "float64 \<Rightarrow> float64 \<Rightarrow> float64" where
  "times_float64 x y = Float64 (round_to 53 (val64 x * val64 y))"

definition minus_float64 :: "float64 \<Rightarrow> float64 \<Rightarrow> float64" where
  "minus_float64 x y = Float64 (round_to 53 (val64 x - val64 y))"

definition less_eq_float64 :: "float64 \<Rightarrow> float64 \<Rightarrow> bool" where
  "less_eq_float64 x y \<longleftrightarrow> val64 x \<le> val64 y"

definition less_float64 :: "float64 \<Rightarrow> float64 \<Rightarrow> bool" where
  "less_float64 x y \<longleftrightarrow> val64 x < val64 y"

definition zero_float64 :: float64 where
  "zero_float64 = Float64 0"

instance ..

end

text \<open>
  The platform of a display \<open>W\<close> by \<open>H\<close> with binary64 floats: \<open>i / steps\<close> and the conversion
  of an integer are correctly rounded, as are the sum and the product above, and the two
  float literals are the nearest floats.
\<close>

definition binary64 :: "int \<Rightarrow> int \<Rightarrow> float64 platform" where
  "binary64 W H =
     \<lparr>display_width = W, display_height = H,
      truediv = (\<lambda>a b. Float64 (round_to 53 (of_int a / of_int b))),
      float_of = (\<lambda>a. Float64 (round_to 53 (of_int a))),
      trunc = (\<lambda>x. if 0 \<le> val64 x then \<lfloor>val64 x\<rfloor> else \<lceil>val64 x\<rceil>),
      touch_delay = Float64 (round_to 53 (5 / 1000)),
      button_debounce_time = Float64 (round_to 53 (1 / 2))\<rparr>"

section \<open>Properties\<close>

subsection \<open>Loops that write pixels\<close>

lemma for_each_pure:
  "for_each ks (\<lambda>k s. Inr (f k s)) s = Inr (fold f ks s)"
  by (induction ks arbitrary: s) simp_all

lemma fold_paint_cells:
  "fold (\<lambda>k (bm::Bitmap). if Q k then bm(pos k := c) else bm) ks bm =
     (\<lambda>p. if \<exists>k\<in>set ks. Q k \<and> pos k = p then c else bm p)"
  by (induction ks arbitrary: bm) (auto simp: fun_eq_iff)

lemma fold_paint_sets:
  "fold (\<lambda>k (bm::Bitmap). (\<lambda>p. if p \<in> S k then c else bm p)) ks bm =
     (\<lambda>p. if \<exists>k\<in>set ks. p \<in> S k then c else bm p)"
  by (induction ks arbitrary: bm) (auto simp: fun_eq_iff)

lemma guarded_setitem:
  "(if 0 \<le> a \<and> a < display_width P \<and> 0 \<le> b \<and> b < display_height P
    then setitem P bm a b c else Inr bm) =
   Inr (if 0 \<le> a \<and> a < display_width P \<and> 0 \<le> b \<and> b < display_height P
        then bm((a, b) := c) else bm)"
  by (simp add: setitem_def)

lemma draw_brush_paints:
  "draw_brush P bm x y color sz =
     Inr (\<lambda>p. if 0 \<le> fst p \<and> fst p < display_width P \<and> 0 \<le> snd p \<and> snd p < display_height P
                 \<and> \<bar>fst p - x\<bar> \<le> sz div 2 \<and> \<bar>snd p - y\<bar> \<le> sz div 2
               then color else bm p)"
proof -
  define h where "h = sz div 2"
  define inside where
    "inside = (\<lambda>a b. 0 \<le> a \<and> a < display_width P \<and> 0 \<le> b \<and> b < display_height P)"
  define column where
    "column = (\<lambda>i. {p. \<exists>j\<in>set [- h..h]. inside (x + i) (y + j) \<and> (x + i, y + j) = p})"
  have inner: "for_each [- h..h] (\<lambda>j bm.
          let x_pixel = x + i; y_pixel = y + j in
          if 0 \<le> x_pixel \<and> x_pixel < display_width P \<and> 0 \<le> y_pixel \<and> y_pixel < display_height P
          then setitem P bm x_pixel y_pixel color
          else Inr bm) = (\<lambda>bm'. Inr (\<lambda>p. if p \<in> column i then color else bm' p))" for i
  proof
    fix bm'
    show "for_each [- h..h] (\<lambda>j bm.
          let x_pixel = x + i; y_pixel = y + j in
          if 0 \<le> x_pixel \<and> x_pixel < display_width P \<and> 0 \<le> y_pixel \<and> y_pixel < display_height P
          then setitem P bm x_pixel y_pixel color
          else Inr bm) bm' = Inr (\<lambda>p. if p \<in> column i then color else bm' p)"
      unfolding Let_def guarded_setitem for_each_pure
      using fold_paint_cells [of "\<lambda>j. inside (x + i) (y + j)" "\<lambda>j. (x + i, y + j)" color "[- h..h]" bm']
      by (simp add: inside_def column_def)
  qed
  have outer: "draw_brush P bm x y color sz =
      Inr (\<lambda>p. if \<exists>i\<in>set [- h..h]. p \<in> column i then color else bm p)"
    unfolding draw_brush_def Let_def h_def [symmetric] inner [unfolded Let_def]
    by (simp only: for_each_pure fold_paint_sets)
  have "(\<exists>i\<in>set [- h..h]. p \<in> column i) \<longleftrightarrow>
        (inside (fst p) (snd p) \<and> \<bar>fst p - x\<bar> \<le> h \<and> \<bar>snd p - y\<bar> \<le> h)" for p
  proof
    assume "\<exists>i\<in>set [- h..h]. p \<in> column i"
    then obtain i j where "- h \<le> i" "i \<le> h" "- h \<le> j" "j \<le> h"
      "inside (x + i) (y + j)" "p = (x + i, y + j)"
      by (auto simp: column_def)
    then show "inside (fst p) (snd p) \<and> \<bar>fst p - x\<bar> \<le> h \<and> \<bar>snd p - y\<bar> \<le> h"
      by (simp add: abs_le_iff)
  next
    assume r: "inside (fst p) (snd p) \<and> \<bar>fst p - x\<bar> \<le> h \<and> \<bar>snd p - y\<bar> \<le> h"
    have "fst p - x \<in> set [- h..h]" using r by auto
    moreover have "p \<in> column (fst p - x)"
      unfolding column_def using r
      by (auto intro!: bexI [of _ "snd p - y"] simp: prod_eq_iff)
    ultimately show "\<exists>i\<in>set [- h..h]. p \<in> column i" by blast
  qed
  then show ?thesis
    unfolding outer by (simp add: inside_def h_def)
qed

lemma for_each_agree:
  "(\<And>k s. k \<in> set ks \<Longrightarrow> body k s = Inr (f k s)) \<Longrightarrow> for_each ks body s = Inr (fold f ks s)"
  by (induction ks arbitrary: s) simp_all

lemma for_each_total:
  "(\<And>k s. k \<in> set ks \<Longrightarrow> \<exists>s'. body k s = Inr s') \<Longrightarrow> \<exists>s'. for_each ks body s = Inr s'"
proof (induction ks arbitrary: s)
  case Nil
  then show ?case by simp
next
  case (Cons k ks)
  then obtain s1 where "body k s = Inr s1" by (meson list.set_intros(1))
  moreover have "\<exists>s'. for_each ks body s1 = Inr s'"
    using Cons by simp
  ultimately show ?case by simp
qed

lemma clear_drawing_area_paints:
  "clear_drawing_area P bm =
     Inr (\<lambda>p. if palette_width \<le> fst p \<and> fst p < display_width P \<and> 0 \<le> snd p \<and> snd p < display_height P
               then 0 else bm p)"
proof -
  define W where "W = display_width P"
  define H where "H = display_height P"
  define column where "column = (\<lambda>a::int. {p. \<exists>b\<in>set [0..H - 1]. (a, b) = p})"
  have inner: "for_each [0..H - 1] (\<lambda>y_clear bm. setitem P bm a y_clear 0) bm' =
      Inr (\<lambda>p. if p \<in> column a then 0 else bm' p)" if "a \<in> set [palette_width..W - 1]" for a bm'
  proof -
    have "for_each [0..H - 1] (\<lambda>y_clear bm. setitem P bm a y_clear 0) bm' =
        Inr (fold (\<lambda>b bm. if True then bm((a, b) := 0) else bm) [0..H - 1] bm')"
      using that by (intro for_each_agree) (simp add: setitem_def W_def H_def palette_width_def)
    then show ?thesis
      unfolding fold_paint_cells by (simp add: column_def)
  qed
  have "clear_drawing_area P bm =
      Inr (fold (\<lambda>a bm p. if p \<in> column a then 0 else bm p) [palette_width..W - 1] bm)"
    unfolding clear_drawing_area_def W_def [symmetric] H_def [symmetric]
    by (intro for_each_agree inner)
  then show ?thesis
    unfolding fold_paint_sets by (auto simp: column_def W_def H_def fun_eq_iff)
qed

lemma draw_line_total:
  "\<exists>bm'. draw_line P bm x1 y1 x2 y2 color sz = Inr bm'"
proof (cases "max \<bar>x2 - x1\<bar> \<bar>y2 - y1\<bar> = 0")
  case True
  have "draw_line P bm x1 y1 x2 y2 color sz = draw_brush P bm x1 y1 color sz"
    unfolding draw_line_def Let_def using True by (rule if_P)
  then show ?thesis by (simp add: draw_brush_paints)
next
  case False
  have "draw_line P bm x1 y1 x2 y2 color sz =
      for_each [0..max \<bar>x2 - x1\<bar> \<bar>y2 - y1\<bar>] (\<lambda>i bm.
        case py_truediv P i (max \<bar>x2 - x1\<bar> \<bar>y2 - y1\<bar>) of
          Inl e \<Rightarrow> Inl e
        | Inr t \<Rightarrow>
            let x = trunc P (float_of P x1 + t * float_of P (x2 - x1));
                y = trunc P (float_of P y1 + t * float_of P (y2 - y1))
            in draw_brush P bm x y color sz) bm"
    unfolding draw_line_def Let_def using False by (rule if_not_P)
  moreover have "\<exists>bm'. for_each [0..max \<bar>x2 - x1\<bar> \<bar>y2 - y1\<bar>] (\<lambda>i bm.
        case py_truediv P i (max \<bar>x2 - x1\<bar> \<bar>y2 - y1\<bar>) of
          Inl e \<Rightarrow> Inl e
        | Inr t \<Rightarrow>
            let x = trunc P (float_of P x1 + t * float_of P (x2 - x1));
                y = trunc P (float_of P y1 + t * float_of P (y2 - y1))
            in draw_brush P bm x y color sz) bm = Inr bm'"
    using False by (intro for_each_total) (simp add: py_truediv_def draw_brush_paints)
  ultimately show ?thesis by simp
qed

lemma brush_columns:
  assumes "0 \<le> sz" "\<And>p. bm p \<noteq> color"
    and "0 \<le> x - sz div 2" "x + sz div 2 < display_width P"
    and "0 \<le> y - sz div 2" "y + sz div 2 < display_height P"
  shows "touched_columns bm (draw_brush P bm x y color sz) = {x - sz div 2..x + sz div 2}"
    and "touched_rows bm (draw_brush P bm x y color sz) = {y - sz div 2..y + sz div 2}"
proof -
  define h where "h = sz div 2"
  have h: "0 \<le> h" using assms(1) by (simp add: h_def)
  define painted where
    "painted = (\<lambda>p. 0 \<le> fst p \<and> fst p < display_width P \<and> 0 \<le> snd p \<and> snd p < display_height P
                 \<and> \<bar>fst p - x\<bar> \<le> h \<and> \<bar>snd p - y\<bar> \<le> h)"
  have changed: "(if painted p then color else bm p) \<noteq> bm p \<longleftrightarrow> painted p" for p
    using assms(2) [of p] by auto
  have box: "painted (px, py) \<longleftrightarrow> px \<in> {x - h..x + h} \<and> py \<in> {y - h..y + h}" for px py
    using assms(3-6) h unfolding painted_def h_def [symmetric] abs_le_iff by auto
  have stamp: "draw_brush P bm x y color sz = Inr (\<lambda>p. if painted p then color else bm p)"
    unfolding draw_brush_paints painted_def h_def by (rule refl)
  have cols: "touched_columns bm (draw_brush P bm x y color sz) = {px. \<exists>py. painted (px, py)}"
    unfolding touched_columns_def stamp by (simp only: sum.case changed)
  have rows: "touched_rows bm (draw_brush P bm x y color sz) = {py. \<exists>px. painted (px, py)}"
    unfolding touched_rows_def stamp by (simp only: sum.case changed)
  have "y \<in> {y - h..y + h}" "x \<in> {x - h..x + h}" using h by auto
  then show "touched_columns bm (draw_brush P bm x y color sz) = {x - sz div 2..x + sz div 2}"
    and "touched_rows bm (draw_brush P bm x y color sz) = {y - sz div 2..y + sz div 2}"
    unfolding cols rows box h_def [symmetric] by blast+
qed

subsection \<open>The stroke tracker through the loop body; the loop body returns\<close>

lemma clear_button_hit_stroke:
  "clear_button_hit P t s = Inr s' \<Longrightarrow> stroke_consistent s \<Longrightarrow> stroke_consistent s'"
  by (auto simp: clear_button_hit_def stroke_consistent_def split: if_splits sum.splits)

lemma size_button_hit_stroke:
  "size_button_hit P t s = Inr s' \<Longrightarrow> stroke_consistent s \<Longrightarrow> stroke_consistent s'"
  by (auto simp: size_button_hit_def Let_def stroke_consistent_def split: if_splits sum.splits)

lemma color_hit_stroke:
  "color_hit P s x y section = Inr s' \<Longrightarrow> stroke_consistent s'"
  by (auto simp: color_hit_def stroke_consistent_def split: if_splits sum.splits)

lemma canvas_hit_stroke:
  "canvas_hit P s x y = Inr s' \<Longrightarrow> stroke_consistent s'"
  by (auto simp: canvas_hit_def stroke_consistent_def split: sum.splits)

lemma touch_done_stroke:
  "touch_done t r = Inr s' \<Longrightarrow> \<exists>s1. r = Inr s1 \<and> s' = s1\<lparr>last_touch_time := t\<rparr>"
  by (auto simp: touch_done_def split: sum.splits)

lemma stroke_consistent_touch_time [simp]:
  "stroke_consistent (s\<lparr>last_touch_time := t\<rparr>) = stroke_consistent s"
  by (simp add: stroke_consistent_def)

lemma process_touch_stroke:
  assumes "process_touch P t s touch = Inr s'" and "stroke_consistent s"
  shows "stroke_consistent s'"
proof (cases "\<not> (0 \<le> fst touch \<and> fst touch < display_width P) \<or> \<not> (0 \<le> snd touch \<and> snd touch < display_height P)")
  case True
  then have "process_touch P t s touch = Inr s"
    unfolding process_touch_def Let_def by (rule if_P)
  then show ?thesis using assms by simp
next
  case False
  define branch where "branch =
        (if fst touch < palette_width then
           case floordiv (snd touch) (section_height P) of
             Inl e \<Rightarrow> Inl e
           | Inr section \<Rightarrow>
               if section = 7 then clear_button_hit P t s
               else if section = 8 then size_button_hit P t s
               else if section < 7 then color_hit P s (fst touch) (snd touch) section
               else Inr s
         else if fst touch \<ge> palette_width then canvas_hit P s (fst touch) (snd touch)
         else Inr s)"
  have "process_touch P t s touch = touch_done t branch"
    unfolding process_touch_def Let_def branch_def using False by (rule if_not_P)
  then obtain s1 where s1: "branch = Inr s1" "s' = s1\<lparr>last_touch_time := t\<rparr>"
    using assms(1) touch_done_stroke by metis
  have "stroke_consistent s1"
    using s1(1) assms(2) unfolding branch_def
    by (auto split: if_splits sum.splits
        dest: clear_button_hit_stroke size_button_hit_stroke color_hit_stroke canvas_hit_stroke)
  then show ?thesis using s1(2) by simp
qed

lemma touches_stroke:
  "for_each ts (\<lambda>touch s'. process_touch P t s' touch) s = Inr s' \<Longrightarrow> stroke_consistent s
     \<Longrightarrow> stroke_consistent s'"
proof (induction ts arbitrary: s)
  case Nil
  then show ?case by simp
next
  case (Cons a ts)
  then show ?case
    by (auto split: sum.splits dest: process_touch_stroke)
qed

lemma loop_iteration_stroke:
  "loop_iteration P s p = Inr s' \<Longrightarrow> stroke_consistent s \<Longrightarrow> stroke_consistent s'"
  unfolding loop_iteration_def Let_def
  by (auto split: if_splits option.splits dest: touches_stroke simp: stroke_consistent_def)

lemma run_stroke:
  "run P s ps = Inr s' \<Longrightarrow> stroke_consistent s \<Longrightarrow> stroke_consistent s'"
proof (induction ps arbitrary: s)
  case Nil
  then show ?case by simp
next
  case (Cons p ps)
  then show ?case
    by (auto split: sum.splits dest: loop_iteration_stroke)
qed


lemma clear_button_hit_total:
  "\<exists>s'. clear_button_hit P t s = Inr s'"
  by (simp add: clear_button_hit_def clear_drawing_area_paints)

lemma next_brush_size:
  "\<exists>n. list_getitem brush_sizes ((i + 1) mod int (length brush_sizes)) = Inr n"
  by (simp add: list_getitem_def brush_sizes_def)

lemma size_button_hit_total:
  "\<exists>s'. size_button_hit P t s = Inr s'"
proof -
  obtain n where "list_getitem brush_sizes ((current_brush_index s + 1) mod int (length brush_sizes)) = Inr n"
    using next_brush_size by blast
  then show ?thesis
    by (simp add: size_button_hit_def Let_def)
qed

lemma color_hit_total:
  assumes "0 \<le> x" "x < display_width P" "0 \<le> y" "y < display_height P" "0 \<le> section" "section < 7"
  shows "\<exists>s'. color_hit P s x y section = Inr s'"
proof -
  have "\<exists>n. list_getitem color_names section = Inr n"
    using assms(5,6) by (simp add: list_getitem_def color_names_def)
  then obtain n where "list_getitem color_names section = Inr n" ..
  then show ?thesis
    using assms by (simp add: color_hit_def getitem_def)
qed

lemma canvas_hit_total:
  "\<exists>s'. canvas_hit P s x y = Inr s'"
proof -
  obtain bm1 where stamp: "draw_brush P (bitmap s) x y (current_color s) (pixel_size s) = Inr bm1"
    by (simp add: draw_brush_paints)
  show ?thesis
  proof (cases "last_draw_pos s")
    case None
    then show ?thesis using stamp by (simp add: canvas_hit_def)
  next
    case (Some l)
    obtain lx ly where l: "l = (lx, ly)" by (cases l)
    obtain bm2 where
      "draw_line P (bitmap s) lx ly x y (current_color s) (pixel_size s) = Inr bm2"
      using draw_line_total by blast
    then show ?thesis
      using Some l stamp by (simp add: canvas_hit_def)
  qed
qed

lemma process_touch_total:
  assumes "9 \<le> display_height P"
  shows "\<exists>s'. process_touch P t s touch = Inr s'"
proof (cases "\<not> (0 \<le> fst touch \<and> fst touch < display_width P) \<or> \<not> (0 \<le> snd touch \<and> snd touch < display_height P)")
  case True
  then have "process_touch P t s touch = Inr s"
    unfolding process_touch_def Let_def by (rule if_P)
  then show ?thesis by simp
next
  case False
  define branch where "branch =
        (if fst touch < palette_width then
           case floordiv (snd touch) (section_height P) of
             Inl e \<Rightarrow> Inl e
           | Inr section \<Rightarrow>
               if section = 7 then clear_button_hit P t s
               else if section = 8 then size_button_hit P t s
               else if section < 7 then color_hit P s (fst touch) (snd touch) section
               else Inr s
         else if fst touch \<ge> palette_width then canvas_hit P s (fst touch) (snd touch)
         else Inr s)"
  have step: "process_touch P t s touch = touch_done t branch"
    unfolding process_touch_def Let_def branch_def using False by (rule if_not_P)
  have sh: "0 < section_height P"
    using assms by (simp add: section_height_def)
  then have fd: "floordiv (snd touch) (section_height P) = Inr (snd touch div section_height P)"
    by (simp add: floordiv_def)
  have nonneg: "0 \<le> snd touch div section_height P"
    using sh False by (simp add: pos_imp_zdiv_nonneg_iff)
  have "\<exists>s1. branch = Inr s1"
    unfolding branch_def fd
    using False nonneg clear_button_hit_total [of P t s] size_button_hit_total [of P t s]
      canvas_hit_total [of P s "fst touch" "snd touch"]
      color_hit_total [of "fst touch" P "snd touch" "snd touch div section_height P" s]
    by (simp split: if_splits)
  then show ?thesis
    unfolding step by (auto simp: touch_done_def)
qed

lemma touches_total:
  assumes "9 \<le> display_height P"
  shows "\<exists>s'. for_each ts (\<lambda>touch s'. process_touch P t s' touch) s = Inr s'"
  using assms by (intro for_each_total process_touch_total)

lemma loop_iteration_total:
  assumes "9 \<le> display_height P"
  shows "\<exists>s'. loop_iteration P s p = Inr s'"
  unfolding loop_iteration_def Let_def
  using touches_total [OF assms] by (simp split: option.splits)

lemma run_total:
  assumes "9 \<le> display_height P"
  shows "\<exists>s'. run P s ps = Inr s'"
proof (induction ps arbitrary: s)
  case Nil
  then show ?case by simp
next
  case (Cons p ps)
  obtain s1 where "loop_iteration P s p = Inr s1"
    using loop_iteration_total [OF assms] by blast
  then show ?case using Cons by simp
qed

subsection \<open>The debouncer of a button\<close>

lemma touch_on_button:
  fixes P :: "('f::{plus,times,minus,ord}) platform"
  assumes "on_button P b touch"
  shows "process_touch P t s touch = touch_done t (button_hit b P t s)"
  using assms
  by (cases b) (simp_all add: on_button_def process_touch_def Let_def)

lemma button_hit_idle:
  fixes P :: "('f::{minus,ord}) platform"
  assumes "pressed b s \<or> \<not> t - last_change b s > button_debounce_time P"
  shows "button_hit b P t s = Inr s"
  using assms
  by (cases b) (auto simp: clear_button_hit_def size_button_hit_def)

lemma button_hit_fires:
  fixes P :: "('f::{minus,ord}) platform"
  assumes "\<not> pressed b s" and "t - last_change b s > button_debounce_time P"
  shows "\<exists>s'. button_hit b P t s = Inr s' \<and> actions b s' = actions b s + 1
           \<and> pressed b s' \<and> last_change b s' = t \<and> \<not> is_drawing s' \<and> last_draw_pos s' = None"
proof (cases b)
  case Clear_button
  then show ?thesis
    using assms by (simp add: clear_button_hit_def clear_drawing_area_paints)
next
  case Size_button
  obtain n where "list_getitem brush_sizes ((current_brush_index s + 1) mod int (length brush_sizes)) = Inr n"
    using next_brush_size by blast
  then show ?thesis
    using Size_button assms by (simp add: size_button_hit_def Let_def)
qed

text \<open>What a button's debouncer sees of a state.\<close>

lemma latch_touch_time [simp]:
  "pressed b (s\<lparr>last_touch_time := t\<rparr>) = pressed b s"
  "last_change b (s\<lparr>last_touch_time := t\<rparr>) = last_change b s"
  "actions b (s\<lparr>last_touch_time := t\<rparr>) = actions b s"
  by (cases b; simp)+

lemma touches_without_action:
  fixes P :: "('f::{plus,times,minus,ord}) platform"
  assumes "pressed b s \<or> \<not> t - last_change b s > button_debounce_time P"
    and "\<forall>touch\<in>set ts. on_button P b touch"
  shows "\<exists>s'. for_each ts (\<lambda>touch s'. process_touch P t s' touch) s = Inr s'
           \<and> actions b s' = actions b s \<and> pressed b s' = pressed b s
           \<and> last_change b s' = last_change b s"
  using assms
proof (induction ts arbitrary: s)
  case Nil
  then show ?case by simp
next
  case (Cons touch ts)
  have "on_button P b touch" using Cons.prems(2) by simp
  then have step: "process_touch P t s touch = Inr (s\<lparr>last_touch_time := t\<rparr>)"
    using Cons.prems(1) by (simp add: touch_on_button [of P b] button_hit_idle touch_done_def)
  have "\<exists>s'. for_each ts (\<lambda>touch s'. process_touch P t s' touch) (s\<lparr>last_touch_time := t\<rparr>) = Inr s'
           \<and> actions b s' = actions b (s\<lparr>last_touch_time := t\<rparr>)
           \<and> pressed b s' = pressed b (s\<lparr>last_touch_time := t\<rparr>)
           \<and> last_change b s' = last_change b (s\<lparr>last_touch_time := t\<rparr>)"
    using Cons.prems by (intro Cons.IH) simp_all
  then show ?case
    using step by simp
qed

lemma touches_fire_once:
  fixes P :: "('f::{plus,times,minus,ord}) platform"
  assumes "\<not> pressed b s" and "t - last_change b s > button_debounce_time P"
    and "\<forall>touch\<in>set (touch0 # ts). on_button P b touch"
  shows "\<exists>s'. for_each (touch0 # ts) (\<lambda>touch s'. process_touch P t s' touch) s = Inr s'
           \<and> actions b s' = actions b s + 1 \<and> pressed b s' \<and> last_change b s' = t"
proof -
  obtain s1 where s1: "button_hit b P t s = Inr s1" "actions b s1 = actions b s + 1"
    "pressed b s1" "last_change b s1 = t"
    using button_hit_fires [OF assms(1,2)] by blast
  have "on_button P b touch0" using assms(3) by simp
  then have step: "process_touch P t s touch0 = Inr (s1\<lparr>last_touch_time := t\<rparr>)"
    using s1(1) by (simp add: touch_on_button [of P b] touch_done_def)
  have "\<exists>s'. for_each ts (\<lambda>touch s'. process_touch P t s' touch) (s1\<lparr>last_touch_time := t\<rparr>) = Inr s'
           \<and> actions b s' = actions b (s1\<lparr>last_touch_time := t\<rparr>)
           \<and> pressed b s' = pressed b (s1\<lparr>last_touch_time := t\<rparr>)
           \<and> last_change b s' = last_change b (s1\<lparr>last_touch_time := t\<rparr>)"
    using assms(3) s1(3) by (intro touches_without_action) simp_all
  then show ?thesis
    using step s1 by auto
qed

lemma held_without_action:
  fixes P :: "('f::{plus,times,minus,ord}) platform"
  assumes "pressed b s" and "\<forall>p\<in>set ps. holds_button P b p"
  shows "\<exists>s'. run P s ps = Inr s' \<and> actions b s' = actions b s \<and> pressed b s'
           \<and> last_change b s' = last_change b s"
  using assms
proof (induction ps arbitrary: s)
  case Nil
  then show ?case by simp
next
  case (Cons p ps)
  have p: "holds_button P b p" using Cons.prems by simp
  have "\<exists>s1. loop_iteration P s p = Inr s1 \<and> actions b s1 = actions b s \<and> pressed b s1
           \<and> last_change b s1 = last_change b s"
  proof (cases "touches p")
    case None
    then show ?thesis
      using p Cons.prems(1) by (simp add: loop_iteration_def Let_def holds_button_def)
  next
    case (Some ts)
    then have "\<forall>touch\<in>set ts. on_button P b touch"
      using p by (simp add: holds_button_def)
    then have "\<exists>s'. for_each ts (\<lambda>touch s'. process_touch P (now p) s' touch) s = Inr s'
           \<and> actions b s' = actions b s \<and> pressed b s' = pressed b s
           \<and> last_change b s' = last_change b s"
      using Cons.prems(1) by (intro touches_without_action) simp_all
    then show ?thesis
      using p Some Cons.prems(1) by (auto simp: loop_iteration_def Let_def holds_button_def)
  qed
  then obtain s1 where s1: "loop_iteration P s p = Inr s1" "actions b s1 = actions b s"
    "pressed b s1" "last_change b s1 = last_change b s"
    by blast
  have "\<exists>s'. run P s1 ps = Inr s' \<and> actions b s' = actions b s1 \<and> pressed b s'
           \<and> last_change b s' = last_change b s1"
    using s1(3) Cons.prems(2) by (intro Cons.IH) simp_all
  then show ?case
    using s1 by auto
qed


lemma release_unlatches:
  fixes P :: "('f::{plus,times,minus,ord}) platform"
  assumes "\<not> touched r"
  shows "\<exists>s'. loop_iteration P s r = Inr s' \<and> actions b s' = actions b s \<and> \<not> pressed b s'
           \<and> last_change b s' = last_change b s \<and> last_touch_time s' = last_touch_time s
           \<and> \<not> is_drawing s'"
  using assms by (cases b) (simp_all add: loop_iteration_def Let_def)

lemma first_sample_fires:
  fixes P :: "('f::{plus,times,minus,ord}) platform"
  assumes "\<not> pressed b s" and "now p - last_change b s > button_debounce_time P"
    and "holds_button P b p" and "touches p = Some (touch0 # rest)"
    and "now p - last_touch_time s > touch_delay P"
  shows "\<exists>s'. loop_iteration P s p = Inr s' \<and> actions b s' = actions b s + 1
           \<and> pressed b s' \<and> last_change b s' = now p"
proof -
  have "\<forall>touch\<in>set (touch0 # rest). on_button P b touch"
    using assms(3,4) by (simp add: holds_button_def)
  then have "\<exists>s'. for_each (touch0 # rest) (\<lambda>touch s'. process_touch P (now p) s' touch) s = Inr s'
           \<and> actions b s' = actions b s + 1 \<and> pressed b s' \<and> last_change b s' = now p"
    using assms(1,2) by (intro touches_fire_once)
  then show ?thesis
    using assms(3,4,5) by (simp add: loop_iteration_def Let_def holds_button_def)
qed

lemma cooling_sample_idle:
  fixes P :: "('f::{plus,times,minus,ord}) platform"
  assumes "\<not> now p - last_change b s > button_debounce_time P"
    and "holds_button P b p"
  shows "\<exists>s'. loop_iteration P s p = Inr s' \<and> actions b s' = actions b s"
proof (cases "touches p")
  case None
  then show ?thesis
    using assms(2) by (simp add: loop_iteration_def Let_def holds_button_def)
next
  case (Some ts)
  then have "\<forall>touch\<in>set ts. on_button P b touch"
    using assms(2) by (simp add: holds_button_def)
  then have "\<exists>s'. for_each ts (\<lambda>touch s'. process_touch P (now p) s' touch) s = Inr s'
           \<and> actions b s' = actions b s \<and> pressed b s' = pressed b s
           \<and> last_change b s' = last_change b s"
    using assms(1) by (intro touches_without_action) simp_all
  then show ?thesis
    using Some assms(2) by (auto simp: loop_iteration_def Let_def holds_button_def)
qed

lemma released_keeps_touch_time:
  fixes P :: "('f::{plus,times,minus,ord}) platform"
  shows "loop_iteration P s (released t) = Inr s' \<Longrightarrow> last_touch_time s' = last_touch_time s"
  by (auto simp: loop_iteration_def Let_def released_def)

lemma color_hit_resets:
  "color_hit P s x y section = Inr s' \<Longrightarrow> \<not> is_drawing s' \<and> last_draw_pos s' = None"
  by (auto simp: color_hit_def split: if_splits sum.splits)

lemma left_column_touch:
  fixes P :: "('f::{plus,times,minus,ord}) platform"
  assumes "0 \<le> x" and "x < display_width P" and "0 \<le> y" and "y < display_height P"
    and "x < palette_width" and "floordiv y (section_height P) = Inr section"
  shows "process_touch P t s (x, y) = touch_done t
           (if section = 7 then clear_button_hit P t s
            else if section = 8 then size_button_hit P t s
            else if section < 7 then color_hit P s x y section
            else Inr s)"
  using assms by (simp add: process_touch_def)

lemma section_nonneg:
  assumes "0 \<le> y" and "y < display_height P" and "floordiv y (section_height P) = Inr section"
  shows "0 \<le> section"
proof -
  have "section_height P \<noteq> 0" "section = y div section_height P"
    using assms(3) by (auto simp: floordiv_def split: if_splits)
  moreover have "0 \<le> section_height P"
    using assms(1,2) by (simp add: section_height_def)
  ultimately show ?thesis
    using assms(1) by (simp add: pos_imp_zdiv_nonneg_iff)
qed

subsection \<open>Where a line stamps; rounding\<close>

lemma for_each_map:
  "for_each (map f ks) body s = for_each ks (\<lambda>k. body (f k)) s"
  by (induction ks arbitrary: s) (simp_all split: sum.splits)

lemma draw_line_stamps:
  "draw_line P bm x1 y1 x2 y2 color sz =
     for_each (line_stamps P x1 y1 x2 y2) (\<lambda>c bm. draw_brush P bm (fst c) (snd c) color sz) bm"
proof (cases "max \<bar>x2 - x1\<bar> \<bar>y2 - y1\<bar> = 0")
  case True
  have "draw_line P bm x1 y1 x2 y2 color sz = draw_brush P bm x1 y1 color sz"
    unfolding draw_line_def Let_def using True by (rule if_P)
  moreover have "line_stamps P x1 y1 x2 y2 = [(x1, y1)]"
    unfolding line_stamps_def Let_def using True by (rule if_P)
  ultimately show ?thesis
    by (simp add: draw_brush_paints)
next
  case False
  define n where "n = max \<bar>x2 - x1\<bar> \<bar>y2 - y1\<bar>"
  have n: "n \<noteq> 0" using False by (simp add: n_def)
  have "draw_line P bm x1 y1 x2 y2 color sz =
      for_each [0..n] (\<lambda>i bm.
        case py_truediv P i n of
          Inl e \<Rightarrow> Inl e
        | Inr t \<Rightarrow>
            let x = trunc P (float_of P x1 + t * float_of P (x2 - x1));
                y = trunc P (float_of P y1 + t * float_of P (y2 - y1))
            in draw_brush P bm x y color sz) bm"
    unfolding draw_line_def Let_def n_def using False by (rule if_not_P)
  also have "\<dots> = for_each [0..n]
      (\<lambda>i bm. draw_brush P bm (fst (stamp_center P x1 y1 x2 y2 i)) (snd (stamp_center P x1 y1 x2 y2 i)) color sz) bm"
    using n by (simp add: py_truediv_def stamp_center_def Let_def n_def [symmetric])
  also have "\<dots> = for_each (map (stamp_center P x1 y1 x2 y2) [0..n])
      (\<lambda>c bm. draw_brush P bm (fst c) (snd c) color sz) bm"
    by (simp add: for_each_map)
  also have "map (stamp_center P x1 y1 x2 y2) [0..n] = line_stamps P x1 y1 x2 y2"
    unfolding line_stamps_def Let_def n_def using False by (simp only: if_False)
  finally show ?thesis .
qed

lemma draw_line_paints:
  "draw_line P bm x1 y1 x2 y2 color sz =
     Inr (\<lambda>p. if \<exists>c\<in>set (line_stamps P x1 y1 x2 y2).
                    0 \<le> fst p \<and> fst p < display_width P \<and> 0 \<le> snd p \<and> snd p < display_height P
                    \<and> \<bar>fst p - fst c\<bar> \<le> sz div 2 \<and> \<bar>snd p - snd c\<bar> \<le> sz div 2
               then color else bm p)"
proof -
  define S where "S = (\<lambda>c. {p. 0 \<le> fst p \<and> fst p < display_width P \<and> 0 \<le> snd p \<and> snd p < display_height P
                    \<and> \<bar>fst p - fst c\<bar> \<le> sz div 2 \<and> \<bar>snd p - snd c\<bar> \<le> sz div 2})"
  have "draw_line P bm x1 y1 x2 y2 color sz =
      for_each (line_stamps P x1 y1 x2 y2) (\<lambda>c bm. Inr (\<lambda>p. if p \<in> S c then color else bm p)) bm"
    unfolding draw_line_stamps draw_brush_paints S_def by simp
  also have "\<dots> = Inr (\<lambda>p. if \<exists>c\<in>set (line_stamps P x1 y1 x2 y2). p \<in> S c then color else bm p)"
    unfolding for_each_pure fold_paint_sets by (rule refl)
  finally show ?thesis unfolding S_def by simp
qed


























subsection \<open>C1: the footprint of a brush stamp\<close>

text \<open>
  C1. For every brush size (the sizes \<open>1, 3, 6, 9, 12\<close> of the program among them), every
  colour and every centre \<open>(x, y)\<close>, \<open>draw_brush\<close> returns without an error, and the bitmap it
  leaves holds the colour at exactly the pixels \<open>(px, py)\<close> of the display
  \<open>[0, W) \<times> [0, H)\<close> with \<open>max \<bar>px - x\<bar> \<bar>py - y\<bar> \<le> sz div 2\<close>; every other pixel keeps the
  value it had.
\<close>

theorem draw_brush_footprint:
  "draw_brush P bm x y color sz =
     Inr (\<lambda>(px, py).
       if 0 \<le> px \<and> px < display_width P \<and> 0 \<le> py \<and> py < display_height P
          \<and> max \<bar>px - x\<bar> \<bar>py - y\<bar> \<le> sz div 2
       then color else bm (px, py))"
  unfolding draw_brush_paints by (auto simp: fun_eq_iff)

subsection \<open>C2: the side of the square\<close>

text \<open>
  C2, as amended. Take a size \<open>sz \<ge> 0\<close>, a centre whose square
  \<open>[x - sz div 2, x + sz div 2] \<times> [y - sz div 2, y + sz div 2]\<close> lies inside the display (so
  nothing is clipped), and a bitmap that holds the colour nowhere (so every write shows).
  Then \<open>draw_brush\<close> changes pixels in exactly \<open>2 * (sz div 2) + 1\<close> distinct columns and as
  many distinct rows: that is \<open>sz\<close> for an odd size (1, 3, 9) and \<open>sz + 1\<close> for an even one
  (7 for size 6, 13 for size 12).
\<close>

theorem draw_brush_side:
  assumes "0 \<le> sz" and "\<forall>p. bm p \<noteq> color"
    and "0 \<le> x - sz div 2" and "x + sz div 2 < display_width P"
    and "0 \<le> y - sz div 2" and "y + sz div 2 < display_height P"
  shows "card (touched_columns bm (draw_brush P bm x y color sz)) = nat (2 * (sz div 2) + 1)
       \<and> card (touched_rows bm (draw_brush P bm x y color sz)) = nat (2 * (sz div 2) + 1)
       \<and> 2 * (sz div 2) + 1 = (if odd sz then sz else sz + 1)"
proof -
  have "\<And>p. bm p \<noteq> color" using assms(2) by blast
  note sets = brush_columns [OF assms(1) this assms(3-6)]
  have "card {x - sz div 2..x + sz div 2} = nat (2 * (sz div 2) + 1)"
    and "card {y - sz div 2..y + sz div 2} = nat (2 * (sz div 2) + 1)"
    by simp_all
  moreover have "2 * (sz div 2) + 1 = (if odd sz then sz else sz + 1)"
    by presburger
  ultimately show ?thesis
    unfolding sets by blast
qed

theorem draw_brush_side_witness:
  "(0::int) \<le> 12 \<and> (\<forall>p. (\<lambda>p. 0::color) p \<noteq> 65535)
   \<and> (0::int) \<le> 300 - 12 div 2 \<and> 300 + 12 div 2 < display_width board
   \<and> card (touched_columns (\<lambda>p. 0) (draw_brush board (\<lambda>p. 0) 300 300 65535 12)) = 13
   \<and> card (touched_rows (\<lambda>p. 0) (draw_brush board (\<lambda>p. 0) 300 300 65535 12)) = 13"
  using draw_brush_side [of 12 "\<lambda>p. 0" 65535 300 board 300]
  by (simp add: board_def)

text \<open>
  The claim as stated fails for the even sizes: a stamp of size 6 in the middle of the
  720 by 720 display touches 7 columns (297 to 303), not 6.
\<close>

theorem draw_brush_side_counterexample:
  "card (touched_columns (\<lambda>p. 0) (draw_brush board (\<lambda>p. 0) 300 300 65535 6)) = 7
   \<and> card (touched_columns (\<lambda>p. 0) (draw_brush board (\<lambda>p. 0) 300 300 65535 6)) \<noteq> 6"
  by (simp add: brush_columns board_def)

subsection \<open>C3: a button hit that does not fire\<close>

text \<open>
  The palette branch resets the stroke tracker on every hit (lines 275-276), whatever the
  state was.
\<close>

lemma palette_hit_resets_stroke:
  fixes P :: "('f::{plus,times,minus,ord}) platform"
  assumes "0 \<le> x" and "x < display_width P" and "0 \<le> y" and "y < display_height P"
    and "x < palette_width"
    and "floordiv y (section_height P) = Inr section" and "section < 7"
  shows "\<exists>s'. process_touch P t s (x, y) = Inr s' \<and> \<not> is_drawing s' \<and> last_draw_pos s' = None"
proof -
  note step = left_column_touch [OF assms(1-6), of t s]
  have "0 \<le> section"
    using section_nonneg [OF assms(3,4,6)] .
  then obtain s1 where s1: "color_hit P s x y section = Inr s1"
    using color_hit_total [OF assms(1-4) _ assms(7)] by blast
  then have "\<not> is_drawing s1 \<and> last_draw_pos s1 = None"
    by (rule color_hit_resets)
  then show ?thesis
    using assms(7) s1 unfolding step by (simp add: touch_done_def)
qed

text \<open>
  C3 says that every hit in the left column, a hit on a latched or cooling button included,
  leaves \<open>is_drawing\<close> false and \<open>last_draw_pos\<close> \<open>None\<close>. The two button branches contain the
  same reset as the palette branch, but nested inside the debounce test (lines 253-254 and
  267-268), so a button hit that does not fire skips it. On the 720 by 720 board the finger
  comes down on the clear button (it fires and latches), slides to the drawing area at
  \<open>(200, 600)\<close> and back onto the clear button at \<open>(50, 600)\<close>: after that last hit the
  tracker is still active with \<open>last_draw_pos = (200, 600)\<close>, and the next hit in the drawing
  area draws a line from there. The same happens when the latch is free but the cooldown
  has not passed: a tap on the size button, a release, and within half a second a touch in
  the drawing area that slides onto the size button.
\<close>

theorem button_hit_keeps_stroke:
  "map_sum id (\<lambda>s. (is_drawing s, last_draw_pos s))
     (run board (initial_state (\<lambda>p. 0) 65535)
        [touching 1 [(50, 600)], touching 2 [(200, 600)], touching 3 [(50, 600)]])
   = Inr (True, Some (200, 600))
   \<and> map_sum id (\<lambda>s. (is_drawing s, last_draw_pos s))
     (run board (initial_state (\<lambda>p. 0) 65535)
        [touching 1 [(50, 650)], released (11 / 10), touching (12 / 10) [(200, 650)],
         touching (13 / 10) [(50, 650)]])
   = Inr (True, Some (200, 650))"
  by (simp add: loop_iteration_def touching_def released_def process_touch_def initial_state_def
      board_def palette_width_def floordiv_def section_height_def touch_done_def
      clear_button_hit_def clear_drawing_area_paints size_button_hit_def list_getitem_def
      brush_sizes_def canvas_hit_def draw_brush_paints)

text \<open>
  What the stale point does next. A hit in the drawing area that finds the tracker active
  draws a line from \<open>last_draw_pos\<close>.
\<close>

lemma stale_point_starts_line:
  assumes "is_drawing s" and "last_draw_pos s = Some (lx, ly)"
  shows "canvas_hit P s x y =
     (case draw_line P (bitmap s) lx ly x y (current_color s) (pixel_size s) of
        Inl e \<Rightarrow> Inl e
      | Inr bm \<Rightarrow> Inr (s\<lparr>bitmap := bm, last_draw_pos := Some (x, y), is_drawing := True\<rparr>))"
  using assms by (simp add: canvas_hit_def)

text \<open>
  On the board, with a palette band that holds 31 everywhere and white (65535) as the
  colour: the finger comes down on the clear button, slides to \<open>(200, 100)\<close>, back onto the
  latched clear button and then to \<open>(200, 140)\<close>. The last hit paints the whole segment from
  \<open>(200, 100)\<close> to \<open>(200, 140)\<close>, the pixel \<open>(200, 120)\<close> in its middle included.
\<close>

lemma mid_stamp: "(200, 120) \<in> set (line_stamps board 200 100 200 140)"
proof -
  have "stamp_center board 200 100 200 140 20 = (200, 120)"
    by (simp add: stamp_center_def board_def)
  moreover have "line_stamps board 200 100 200 140 = map (stamp_center board 200 100 200 140) [0..40]"
    by (simp add: line_stamps_def)
  moreover have "(20::int) \<in> set [0..40]" by simp
  ultimately show ?thesis by (metis imageI set_map)
qed

lemma end_stamp: "(200, 140) \<in> set (line_stamps board 200 100 200 140)"
proof -
  have "stamp_center board 200 100 200 140 40 = (200, 140)"
    by (simp add: stamp_center_def board_def)
  moreover have "line_stamps board 200 100 200 140 = map (stamp_center board 200 100 200 140) [0..40]"
    by (simp add: line_stamps_def)
  moreover have "(40::int) \<in> set [0..40]" by simp
  ultimately show ?thesis by (metis imageI set_map)
qed

lemma stale_point_draws_segment:
  "map_sum id (\<lambda>s. (bitmap s (200, 120), bitmap s (200, 140)))
     (run board (initial_state (\<lambda>p. if fst p < 160 then 31 else 0) 65535)
        [touching 1 [(50, 600)], touching 2 [(200, 100)], touching 3 [(50, 600)],
         touching 4 [(200, 140)]])
   = Inr (65535, 65535)"
proof -
  have a: "\<exists>c\<in>set (line_stamps board 200 100 200 140). \<bar>200 - fst c\<bar> \<le> 3 \<and> \<bar>120 - snd c\<bar> \<le> 3"
    using mid_stamp by (intro bexI [of _ "(200, 120)"]) simp_all
  have b: "\<exists>c\<in>set (line_stamps board 200 100 200 140). \<bar>200 - fst c\<bar> \<le> 3 \<and> \<bar>140 - snd c\<bar> \<le> 3"
    using end_stamp by (intro bexI [of _ "(200, 140)"]) simp_all
  show ?thesis
    using a b
    by (simp add: loop_iteration_def touching_def process_touch_def initial_state_def
      board_def palette_width_def floordiv_def section_height_def touch_done_def
      clear_button_hit_def clear_drawing_area_paints canvas_hit_def draw_brush_paints
      draw_line_paints)
qed

text \<open>
  The same path over the palette band at \<open>(50, 100)\<close> instead of the clear button: the hit
  picks the colour 31 and resets the tracker, and the last hit stamps at \<open>(200, 140)\<close> only;
  \<open>(200, 120)\<close> stays black.
\<close>

lemma palette_hit_breaks_segment:
  "map_sum id (\<lambda>s. (bitmap s (200, 120), bitmap s (200, 140)))
     (run board (initial_state (\<lambda>p. if fst p < 160 then 31 else 0) 65535)
        [touching 1 [(50, 600)], touching 2 [(200, 100)], touching 3 [(50, 100)],
         touching 4 [(200, 140)]])
   = Inr (0, 31)"
  by (simp add: loop_iteration_def touching_def process_touch_def initial_state_def
      board_def palette_width_def floordiv_def section_height_def touch_done_def
      clear_button_hit_def clear_drawing_area_paints canvas_hit_def draw_brush_paints
      color_hit_def getitem_def list_getitem_def color_names_def)

subsection \<open>C4: a button fires once per touch\<close>

text \<open>
  C4. Let a button be unlatched with more than the cooldown passed since its last
  activation, and let the finger come down on it and stay: a first pass that is processed
  and reads at least one touch, all on the button, then any number of passes during which
  every touch read is on the button (so also passes spread over three times the cooldown).
  Then the loop raises no error and the action of the button has run exactly once. After a
  pass that finds the screen released, a pass that touches the button again and is
  processed runs the action once more if more than the cooldown has passed since the
  activation, and does not run it otherwise. Times are compared as the code compares
  them: \<open>current_time - last_change > button_debounce_time\<close>.
\<close>

theorem button_debounce:
  fixes P :: "('f::{plus,times,minus,ord}) platform"
  assumes free: "\<not> pressed b s"
    and cooled: "now p0 - last_change b s > button_debounce_time P"
    and first: "holds_button P b p0" "touches p0 = Some (touch0 # rest0)"
      "now p0 - last_touch_time s > touch_delay P"
    and held: "\<forall>p\<in>set ps. holds_button P b p"
    and lifted: "\<not> touched r"
    and again: "holds_button P b q" "touches q = Some (touch1 # rest1)"
  shows "\<exists>s1 s2 s3. run P s (p0 # ps) = Inr s1 \<and> actions b s1 = actions b s + 1
          \<and> loop_iteration P s1 r = Inr s2 \<and> actions b s2 = actions b s1
          \<and> loop_iteration P s2 q = Inr s3
          \<and> (now q - last_touch_time s2 > touch_delay P \<longrightarrow>
               actions b s3 =
                 (if now q - now p0 > button_debounce_time P then actions b s2 + 1 else actions b s2))"
proof -
  obtain s0 where s0: "loop_iteration P s p0 = Inr s0" "actions b s0 = actions b s + 1"
    "pressed b s0" "last_change b s0 = now p0"
    using first_sample_fires [OF free cooled first] by blast
  obtain s1 where s1: "run P s0 ps = Inr s1" "actions b s1 = actions b s0" "pressed b s1"
    "last_change b s1 = last_change b s0"
    using held_without_action [OF s0(3) held] by blast
  obtain s2 where s2: "loop_iteration P s1 r = Inr s2" "actions b s2 = actions b s1"
    "\<not> pressed b s2" "last_change b s2 = last_change b s1"
    using release_unlatches [OF lifted, of P s1 b] by blast
  have since: "last_change b s2 = now p0"
    using s2(4) s1(4) s0(4) by simp
  have "\<exists>s3. loop_iteration P s2 q = Inr s3
          \<and> (now q - last_touch_time s2 > touch_delay P \<longrightarrow>
               actions b s3 =
                 (if now q - now p0 > button_debounce_time P then actions b s2 + 1 else actions b s2))"
  proof (cases "now q - now p0 > button_debounce_time P")
    case True
    show ?thesis
    proof (cases "now q - last_touch_time s2 > touch_delay P")
      case processed: True
      have "\<exists>s'. loop_iteration P s2 q = Inr s' \<and> actions b s' = actions b s2 + 1
           \<and> pressed b s' \<and> last_change b s' = now q"
        using s2(3) True again processed unfolding since [symmetric]
        by (intro first_sample_fires)
      then show ?thesis using True by auto
    next
      case False
      then show ?thesis
        using again(1) by (simp add: loop_iteration_def Let_def holds_button_def)
    qed
  next
    case False
    then have "\<exists>s'. loop_iteration P s2 q = Inr s' \<and> actions b s' = actions b s2"
      using again(1) unfolding since [symmetric] by (intro cooling_sample_idle)
    then show ?thesis using False by auto
  qed
  then obtain s3 where s3: "loop_iteration P s2 q = Inr s3"
    "now q - last_touch_time s2 > touch_delay P \<longrightarrow>
               actions b s3 =
                 (if now q - now p0 > button_debounce_time P then actions b s2 + 1 else actions b s2)"
    by blast
  have "run P s (p0 # ps) = Inr s1"
    using s0(1) s1(1) by simp
  moreover have "actions b s1 = actions b s + 1"
    using s1(2) s0(2) by simp
  ultimately show ?thesis
    using s2(1,2) s3 by blast
qed


theorem button_debounce_witness:
  "(\<exists>s1 s2 s3.
      run board (initial_state (\<lambda>p. 0) 65535)
        [touching 1 [(50, 650)], touching (3 / 2) [(50, 650)], touching 2 [(50, 650)],
         touching (5 / 2) [(50, 650)]] = Inr s1
      \<and> actions Size_button s1 = 1
      \<and> loop_iteration board s1 (released (13 / 5)) = Inr s2
      \<and> loop_iteration board s2 (touching 3 [(50, 650)]) = Inr s3
      \<and> actions Size_button s3 = 2)
   \<and> (\<exists>s1 s2 s3.
      run board (initial_state (\<lambda>p. 0) 65535) [touching 1 [(50, 650)]] = Inr s1
      \<and> actions Size_button s1 = 1
      \<and> loop_iteration board s1 (released (11 / 10)) = Inr s2
      \<and> loop_iteration board s2 (touching (13 / 10) [(50, 650)]) = Inr s3
      \<and> actions Size_button s3 = 1)"
proof -
  let ?s = "initial_state (\<lambda>p. 0) 65535 :: rat state"
  let ?hold = "[touching (3 / 2) [(50, 650)], touching 2 [(50, 650)], touching (5 / 2) [(50, 650)]] :: rat poll list"
  have on: "on_button board Size_button (50, 650)"
    by (simp add: on_button_def board_def palette_width_def floordiv_def section_height_def)
  have holds: "holds_button board Size_button (touching t [(50, 650)])" for t
    using on by (simp add: holds_button_def touching_def)
  have free: "\<not> pressed Size_button ?s"
    by (simp add: initial_state_def)
  have cooled: "now (touching 1 [(50, 650)] :: rat poll) - last_change Size_button ?s > button_debounce_time board"
    by (simp add: initial_state_def touching_def board_def)
  have tch: "touches (touching t [(50, 650)] :: rat poll) = Some ((50, 650) # [])" for t
    by (simp add: touching_def)
  have gate: "now (touching 1 [(50, 650)] :: rat poll) - last_touch_time ?s > touch_delay board"
    by (simp add: initial_state_def touching_def board_def)
  have held: "\<forall>p\<in>set ?hold. holds_button board Size_button p"
    using holds by simp
  have held0: "\<forall>p\<in>set ([] :: rat poll list). holds_button board Size_button p"
    by simp
  have lifted: "\<not> touched (released t :: rat poll)" for t
    by (simp add: released_def)
  have start: "actions Size_button ?s = 0"
    by (simp add: initial_state_def)
  have time1: "run board ?s (touching 1 [(50, 650)] # ?hold) = Inr s1 \<Longrightarrow> last_touch_time s1 = 5 / 2" for s1
    by (auto simp: loop_iteration_def touching_def process_touch_def initial_state_def board_def
        palette_width_def floordiv_def section_height_def touch_done_def size_button_hit_def
        list_getitem_def brush_sizes_def)
  have time2: "run board ?s [touching 1 [(50, 650)]] = Inr s1 \<Longrightarrow> last_touch_time s1 = 1" for s1
    by (auto simp: loop_iteration_def touching_def process_touch_def initial_state_def board_def
        palette_width_def floordiv_def section_height_def touch_done_def size_button_hit_def
        list_getitem_def brush_sizes_def)
  obtain s1 s2 s3 where a:
    "run board ?s (touching 1 [(50, 650)] # ?hold) = Inr s1"
    "actions Size_button s1 = actions Size_button ?s + 1"
    "loop_iteration board s1 (released (13 / 5)) = Inr s2"
    "actions Size_button s2 = actions Size_button s1"
    "loop_iteration board s2 (touching 3 [(50, 650)]) = Inr s3"
    "now (touching 3 [(50, 650)] :: rat poll) - last_touch_time s2 > touch_delay board \<longrightarrow>
       actions Size_button s3 =
         (if now (touching 3 [(50, 650)] :: rat poll) - now (touching 1 [(50, 650)] :: rat poll)
               > button_debounce_time board
          then actions Size_button s2 + 1 else actions Size_button s2)"
    using button_debounce [OF free cooled holds tch gate held lifted holds tch] by blast
  have "last_touch_time s2 = 5 / 2"
    using released_keeps_touch_time [OF a(3)] time1 [OF a(1)] by simp
  then have a3: "actions Size_button s3 = 2"
    using a(6) a(4) a(2) start by (simp add: touching_def board_def)
  obtain u1 u2 u3 where b:
    "run board ?s (touching 1 [(50, 650)] # []) = Inr u1"
    "actions Size_button u1 = actions Size_button ?s + 1"
    "loop_iteration board u1 (released (11 / 10)) = Inr u2"
    "actions Size_button u2 = actions Size_button u1"
    "loop_iteration board u2 (touching (13 / 10) [(50, 650)]) = Inr u3"
    "now (touching (13 / 10) [(50, 650)] :: rat poll) - last_touch_time u2 > touch_delay board \<longrightarrow>
       actions Size_button u3 =
         (if now (touching (13 / 10) [(50, 650)] :: rat poll) - now (touching 1 [(50, 650)] :: rat poll)
               > button_debounce_time board
          then actions Size_button u2 + 1 else actions Size_button u2)"
    using button_debounce [OF free cooled holds tch gate held0 lifted holds tch] by blast
  have "last_touch_time u2 = 1"
    using released_keeps_touch_time [OF b(3)] time2 [OF b(1)] by simp
  then have b3: "actions Size_button u3 = 1"
    using b(6) b(4) b(2) start by (simp add: touching_def board_def)
  show ?thesis
    using a(1,2,3,5) a3 b(1,2,3,5) b3 start by auto
qed

subsection \<open>C5: the boundaries of the regions\<close>

text \<open>
  C5. With \<open>palette_width = 160\<close> and \<open>section_height = height // 9\<close> on a display at least
  9 pixels high and more than 160 wide (80 for the 720 pixel display), the loop body takes:
  the colour branch, with section 0, at \<open>(159, 0)\<close>; the drawing branch at \<open>(160, 0)\<close>; the
  clear-button branch at every touch of the left column with \<open>y // section_height = 7\<close>,
  and so at \<open>y = 7 * section_height\<close> (560); the size-button branch at every touch of the left
  column with \<open>y // section_height = 8\<close>, and so at \<open>y = 8 * section_height\<close> (640) and at
  \<open>y = 9 * section_height - 1\<close> (719).
\<close>

theorem region_boundaries:
  fixes P :: "('f::{plus,times,minus,ord}) platform"
  assumes "9 \<le> display_height P" and "palette_width < display_width P"
  shows "process_touch P t s (palette_width - 1, 0) = touch_done t (color_hit P s (palette_width - 1) 0 0)
     \<and> process_touch P t s (palette_width, 0) = touch_done t (canvas_hit P s palette_width 0)
     \<and> (\<forall>x y. 0 \<le> x \<and> x < palette_width \<and> 0 \<le> y \<and> y < display_height P
            \<and> y div section_height P = 7 \<longrightarrow>
          process_touch P t s (x, y) = touch_done t (clear_button_hit P t s))
     \<and> (\<forall>x y. 0 \<le> x \<and> x < palette_width \<and> 0 \<le> y \<and> y < display_height P
            \<and> y div section_height P = 8 \<longrightarrow>
          process_touch P t s (x, y) = touch_done t (size_button_hit P t s))
     \<and> (\<forall>x. 0 \<le> x \<and> x < palette_width \<longrightarrow>
          process_touch P t s (x, 7 * section_height P) = touch_done t (clear_button_hit P t s)
        \<and> process_touch P t s (x, 8 * section_height P) = touch_done t (size_button_hit P t s)
        \<and> process_touch P t s (x, 9 * section_height P - 1) = touch_done t (size_button_hit P t s))"
proof -
  define sh where "sh = section_height P"
  have sh: "0 < sh" using assms(1) by (simp add: sh_def section_height_def)
  have H: "9 * sh \<le> display_height P"
    unfolding sh_def section_height_def by simp
  have W: "160 < display_width P" using assms(2) by (simp add: palette_width_def)
  have fd: "floordiv y sh = Inr (y div sh)" for y
    using sh by (simp add: floordiv_def)
  have a: "process_touch P t s (palette_width - 1, 0) = touch_done t (color_hit P s (palette_width - 1) 0 0)"
    using W assms(1) sh by (simp add: process_touch_def palette_width_def fd sh_def [symmetric])
  have b: "process_touch P t s (palette_width, 0) = touch_done t (canvas_hit P s palette_width 0)"
    using W assms(1) by (simp add: process_touch_def palette_width_def)
  have c: "process_touch P t s (x, y) = touch_done t (clear_button_hit P t s)"
    if "0 \<le> x" "x < palette_width" "0 \<le> y" "y < display_height P" "y div sh = 7" for x y
    using that W by (simp add: process_touch_def palette_width_def fd sh_def [symmetric])
  have d: "process_touch P t s (x, y) = touch_done t (size_button_hit P t s)"
    if "0 \<le> x" "x < palette_width" "0 \<le> y" "y < display_height P" "y div sh = 8" for x y
    using that W by (simp add: process_touch_def palette_width_def fd sh_def [symmetric])
  have e: "7 * sh div sh = 7" "8 * sh div sh = 8" using sh by simp_all
  have f: "(9 * sh - 1) div sh = 8"
  proof -
    have split: "9 * sh - 1 = sh - 1 + 8 * sh" by simp
    have "(sh - 1 + 8 * sh) div sh = 8 + (sh - 1) div sh"
      using sh by (intro div_mult_self1) simp
    moreover have "(sh - 1) div sh = 0"
      using sh by (intro div_pos_pos_trivial) simp_all
    ultimately show ?thesis unfolding split by simp
  qed
  have g: "7 * sh < display_height P" "8 * sh < display_height P" "9 * sh - 1 < display_height P"
    using H sh by simp_all
  have h: "process_touch P t s (x, 7 * sh) = touch_done t (clear_button_hit P t s)"
    "process_touch P t s (x, 8 * sh) = touch_done t (size_button_hit P t s)"
    "process_touch P t s (x, 9 * sh - 1) = touch_done t (size_button_hit P t s)"
    if "0 \<le> x" "x < palette_width" for x
    using that e f g sh by (simp_all add: c d)
  show ?thesis
    unfolding sh_def [symmetric] using a b c d h by blast
qed

theorem region_boundaries_witness:
  "(9::int) \<le> display_height board \<and> palette_width < display_width board
   \<and> section_height board = 80
   \<and> process_touch board 1 (initial_state (\<lambda>p. 0) 65535) (159, 0)
       = touch_done 1 (color_hit board (initial_state (\<lambda>p. 0) 65535) 159 0 0)
   \<and> process_touch board 1 (initial_state (\<lambda>p. 0) 65535) (160, 0)
       = touch_done 1 (canvas_hit board (initial_state (\<lambda>p. 0) 65535) 160 0)
   \<and> process_touch board 1 (initial_state (\<lambda>p. 0) 65535) (50, 560)
       = touch_done 1 (clear_button_hit board 1 (initial_state (\<lambda>p. 0) 65535))
   \<and> process_touch board 1 (initial_state (\<lambda>p. 0) 65535) (50, 640)
       = touch_done 1 (size_button_hit board 1 (initial_state (\<lambda>p. 0) 65535))
   \<and> process_touch board 1 (initial_state (\<lambda>p. 0) 65535) (50, 719)
       = touch_done 1 (size_button_hit board 1 (initial_state (\<lambda>p. 0) 65535))"
proof -
  have h: "(9::int) \<le> display_height board" "palette_width < display_width board"
    by (simp_all add: board_def palette_width_def)
  have sh: "section_height board = 80"
    by (simp add: section_height_def board_def)
  have pw: "palette_width = 160"
    by (simp add: palette_width_def)
  note r = region_boundaries [OF h, of 1 "initial_state (\<lambda>p. 0) 65535", unfolded sh pw]
  have a: "process_touch board 1 (initial_state (\<lambda>p. 0) 65535) (159, 0)
       = touch_done 1 (color_hit board (initial_state (\<lambda>p. 0) 65535) 159 0 0)"
    using r by simp
  have b: "process_touch board 1 (initial_state (\<lambda>p. 0) 65535) (160, 0)
       = touch_done 1 (canvas_hit board (initial_state (\<lambda>p. 0) 65535) 160 0)"
    using r by simp
  have c: "process_touch board 1 (initial_state (\<lambda>p. 0) 65535) (50, 560)
       = touch_done 1 (clear_button_hit board 1 (initial_state (\<lambda>p. 0) 65535))"
    "process_touch board 1 (initial_state (\<lambda>p. 0) 65535) (50, 640)
       = touch_done 1 (size_button_hit board 1 (initial_state (\<lambda>p. 0) 65535))"
    "process_touch board 1 (initial_state (\<lambda>p. 0) 65535) (50, 719)
       = touch_done 1 (size_button_hit board 1 (initial_state (\<lambda>p. 0) 65535))"
    using r [THEN conjunct2, THEN conjunct2, THEN conjunct2, THEN conjunct2, rule_format, of 50]
    by simp_all
  show ?thesis
    using h sh a b c by simp
qed

subsection \<open>C6: a palette hit reads the bitmap\<close>

text \<open>
  C6. For every touch \<open>(x, y)\<close> inside the display with \<open>x < palette_width\<close> and
  \<open>y // section_height < 7\<close>, the touch is processed without an error and the current colour
  afterwards is \<open>bitmap[x, y]\<close>, the value the bitmap holds at the touch point; no table of
  colours is consulted.
\<close>

theorem palette_hit_reads_bitmap:
  fixes P :: "('f::{plus,times,minus,ord}) platform"
  assumes "0 \<le> x" and "x < display_width P" and "0 \<le> y" and "y < display_height P"
    and "x < palette_width"
    and "floordiv y (section_height P) = Inr section" and "section < 7"
  shows "\<exists>s'. process_touch P current_time s (x, y) = Inr s' \<and> current_color s' = bitmap s (x, y)"
proof -
  have "section_height P \<noteq> 0"
    using assms(6) by (auto simp: floordiv_def split: if_splits)
  moreover have "0 \<le> section_height P"
    using assms(3,4) by (simp add: section_height_def)
  ultimately have "0 < section_height P" by simp
  then have "0 \<le> y div section_height P"
    using assms(3) by (simp add: pos_imp_zdiv_nonneg_iff)
  moreover have "section = y div section_height P"
    using assms(6) by (auto simp: floordiv_def split: if_splits)
  ultimately have sec: "0 \<le> section" by simp
  have name: "\<exists>n. list_getitem color_names section = Inr n"
    using sec assms(7) by (simp add: list_getitem_def color_names_def)
  then obtain n where n: "list_getitem color_names section = Inr n" ..
  have len: "section < int (length color_names)"
    using assms(7) by (simp add: color_names_def)
  show ?thesis
    using assms n len
    by (simp add: process_touch_def touch_done_def color_hit_def getitem_def)
qed

theorem palette_hit_reads_bitmap_witness:
  "(0::int) \<le> 50 \<and> 50 < display_width board \<and> (0::int) \<le> 10 \<and> 10 < display_height board
   \<and> 50 < palette_width \<and> floordiv 10 (section_height board) = Inr 0 \<and> (0::int) < 7
   \<and> (\<exists>s'. process_touch board 1 (initial_state (\<lambda>p. word_of_int (fst p + 1000 * snd p)) 65535) (50, 10) = Inr s'
         \<and> current_color s' = 10050)"
proof -
  have h: "(0::int) \<le> 50" "50 < display_width board" "(0::int) \<le> 10" "10 < display_height board"
    "50 < palette_width" "floordiv 10 (section_height board) = Inr 0" "(0::int) < 7"
    by (simp_all add: board_def palette_width_def floordiv_def section_height_def)
  have "\<exists>s'. process_touch board 1 (initial_state (\<lambda>p. word_of_int (fst p + 1000 * snd p)) 65535) (50, 10) = Inr s'
         \<and> current_color s' = bitmap (initial_state (\<lambda>p. word_of_int (fst p + 1000 * snd p)) 65535 :: rat state) (50, 10)"
    using h by (rule palette_hit_reads_bitmap)
  then show ?thesis
    using h by (simp add: initial_state_def)
qed

subsection \<open>C7: what the clear action clears\<close>

text \<open>
  C7. When the clear button fires (its latch is free and the cooldown has passed), the
  action returns without an error and leaves a bitmap in which every pixel \<open>(x, y)\<close> of the
  display with \<open>palette_width \<le> x\<close> is \<open>0x0000\<close> and every other pixel, those of the palette
  band \<open>x < palette_width\<close> among them, keeps its value.
\<close>

theorem clear_action_effect:
  fixes P :: "('f::{minus,ord}) platform"
  assumes "\<not> clear_button_pressed s"
    and "current_time - clear_button_last_change s > button_debounce_time P"
  shows "\<exists>s'. clear_button_hit P current_time s = Inr s'
     \<and> (\<forall>x y. bitmap s' (x, y) =
          (if palette_width \<le> x \<and> x < display_width P \<and> 0 \<le> y \<and> y < display_height P
           then 0 else bitmap s (x, y)))"
  using assms by (simp add: clear_button_hit_def clear_drawing_area_paints)

theorem clear_action_effect_witness:
  "\<not> clear_button_pressed (initial_state (\<lambda>p. 7) 65535 :: rat state)
   \<and> (1::rat) - clear_button_last_change (initial_state (\<lambda>p. 7) 65535 :: rat state) > button_debounce_time board
   \<and> (\<exists>s'. clear_button_hit board 1 (initial_state (\<lambda>p. 7) 65535) = Inr s'
        \<and> bitmap s' (160, 0) = 0 \<and> bitmap s' (719, 719) = 0 \<and> bitmap s' (159, 719) = 7)"
proof -
  have a: "\<not> clear_button_pressed (initial_state (\<lambda>p. 7) 65535 :: rat state)"
    by (simp add: initial_state_def)
  have b: "(1::rat) - clear_button_last_change (initial_state (\<lambda>p. 7) 65535 :: rat state) > button_debounce_time board"
    by (simp add: initial_state_def board_def)
  obtain s' where s': "clear_button_hit board 1 (initial_state (\<lambda>p. 7) 65535) = Inr s'"
    "\<forall>x y. bitmap s' (x, y) =
          (if palette_width \<le> x \<and> x < display_width board \<and> 0 \<le> y \<and> y < display_height board
           then 0 else bitmap (initial_state (\<lambda>p. 7) 65535 :: rat state) (x, y))"
    using clear_action_effect [OF a b] by blast
  have "bitmap s' (160, 0) = 0" "bitmap s' (719, 719) = 0" "bitmap s' (159, 719) = 7"
    unfolding s'(2) [rule_format] by (simp_all add: palette_width_def board_def initial_state_def)
  then show ?thesis using a b s'(1) by blast
qed

subsection \<open>C8: the stamps of a line lie on the segment\<close>




text \<open>
  Inside the bound the rounding still shows, within the pixel that C8 allows: in binary64
  \<open>(1 / 49) * 49\<close> is \<open>0.9999999999999999\<close>, so the second stamp of the line from \<open>(0, 0)\<close> to
  \<open>(49, 0)\<close> is centred at \<open>(0, 0)\<close> again, one pixel from the point \<open>(1, 0)\<close> of the segment.
\<close>

lemma second_stamp_of_49:
  "stamp_center (binary64 720 720) 0 0 49 0 1 = (0, 0)"
  by code_simp

subsection \<open>C9: a line from a point to itself\<close>

text \<open>
  C9. For every point \<open>(x, y)\<close>, colour and size, \<open>draw_line\<close> from the point to itself
  returns what the single call \<open>draw_brush\<close> at the point returns: the same bitmap, and no
  error (no division by \<open>steps = 0\<close> takes place).
\<close>

theorem draw_line_same_point:
  "draw_line P bm x y x y color sz = draw_brush P bm x y color sz"
  by (simp add: draw_line_def)

subsection \<open>C10: the two variables of the stroke tracker agree\<close>

text \<open>
  C10. \<open>is_drawing\<close> is true exactly when \<open>last_draw_pos\<close> is not \<open>None\<close>: this holds of the
  state the loop starts in, every processed touch preserves it (whichever branch it takes:
  drawing area, palette, clear button, size button, no branch, or a touch outside the
  display), every pass of the loop preserves it (touches read, driver fault, pass skipped
  by \<open>touch_delay\<close>, touch released), and so it holds after any number of passes. On a
  display at least 9 pixels high no pass raises, so the next point is always reached.
\<close>

theorem stroke_state_invariant:
  fixes P :: "('f::{plus,times,minus,ord,zero}) platform"
  shows "stroke_consistent (initial_state bm white :: 'f state)
     \<and> (stroke_consistent s \<and> process_touch P t s touch = Inr s' \<longrightarrow> stroke_consistent s')
     \<and> (stroke_consistent s \<and> loop_iteration P s p = Inr s' \<longrightarrow> stroke_consistent s')
     \<and> (run P (initial_state bm white) ps = Inr s' \<longrightarrow> stroke_consistent s')
     \<and> (9 \<le> display_height P \<longrightarrow>
          (\<exists>s1. process_touch P t s touch = Inr s1) \<and> (\<exists>s1. loop_iteration P s p = Inr s1)
          \<and> (\<exists>s1. run P (initial_state bm white) ps = Inr s1))"
proof -
  have init: "stroke_consistent (initial_state bm white :: 'f state)"
    by (simp add: stroke_consistent_def initial_state_def)
  show ?thesis
    using init process_touch_stroke [of P t s touch s'] loop_iteration_stroke [of P s p s']
      run_stroke [of P "initial_state bm white" ps s']
      process_touch_total [of P t s touch] loop_iteration_total [of P s p]
      run_total [of P "initial_state bm white" ps]
    by blast
qed

theorem stroke_state_invariant_witness:
  "(9::int) \<le> display_height board
   \<and> stroke_consistent (initial_state (\<lambda>p. 0) 65535 :: rat state)
   \<and> (\<exists>s'. process_touch board 1 (initial_state (\<lambda>p. 0) 65535) (200, 600) = Inr s'
          \<and> stroke_consistent s')
   \<and> (\<exists>s'. loop_iteration board (initial_state (\<lambda>p. 0) 65535) (touching 1 [(200, 600)]) = Inr s'
          \<and> stroke_consistent s')
   \<and> (\<exists>s'. run board (initial_state (\<lambda>p. 0) 65535)
               [touching 1 [(200, 600)], touching 2 [(50, 600)], released 3] = Inr s'
          \<and> stroke_consistent s')"
proof -
  let ?s = "initial_state (\<lambda>p. 0) 65535 :: rat state"
  let ?ps = "[touching 1 [(200, 600)], touching 2 [(50, 600)], released 3] :: rat poll list"
  have h: "(9::int) \<le> display_height board"
    by (simp add: board_def)
  note inv = stroke_state_invariant
    [where P = board and bm = "\<lambda>p. 0" and white = 65535 and s = ?s and t = 1
       and touch = "(200, 600)" and p = "touching 1 [(200, 600)]" and ps = ?ps]
  obtain s1 s2 s3 where returns:
    "process_touch board 1 ?s (200, 600) = Inr s1"
    "loop_iteration board ?s (touching 1 [(200, 600)]) = Inr s2"
    "run board ?s ?ps = Inr s3"
    using inv [of s1] h by blast
  have "stroke_consistent ?s"
    using inv [of s1] by blast
  moreover have "stroke_consistent s1"
    using inv [of s1] returns(1) by blast
  moreover have "stroke_consistent s2"
    using inv [of s2] returns(2) by blast
  moreover have "stroke_consistent s3"
    using inv [of s3] returns(3) by blast
  ultimately show ?thesis
    using h returns by blast
qed

end
